theory Spec2Isabelle
  imports Main
begin

section \<open>JUnit XML report generation (internal/junitxml/report.go)\<close>

text \<open>
  Go strings are byte sequences; they are modelled as \<open>string\<close> (lists of 8-bit
  characters). Go's \<open>int\<close> is modelled as \<open>int\<close>: the only arithmetic on it is
  comparison with a length and slicing, so its width plays no part.
\<close>

subsection \<open>Library functions used by the name normalizer\<close>

text \<open>
  \<open>strings.Split(s, "/")\<close>: the pieces of \<open>s\<close> between occurrences of the separator.
  The source only ever passes the one-byte separator \<open>"/"\<close>, so the separator is a
  character here. The result is never empty: \<open>Split "" = [""]\<close>.
\<close>

fun Split :: "string \<Rightarrow> char \<Rightarrow> string list" where
  "Split [] sep = [[]]"
| "Split (c # cs) sep =
     (if c = sep then [] # Split cs sep
      else (case Split cs sep of
              [] \<Rightarrow> [[c]]
            | x # xs \<Rightarrow> (c # x) # xs))"

text \<open>
  \<open>strings.Replace(s, old, new, -1)\<close> for one-byte \<open>old\<close> and \<open>new\<close>: every
  occurrence is replaced.
\<close>

definition Replace :: "string \<Rightarrow> char \<Rightarrow> char \<Rightarrow> string" where
  "Replace s old new = map (\<lambda>c. if c = old then new else c) s"

text \<open>\<open>strings.Join(elems, "/")\<close>.\<close>

fun strings_Join :: "string list \<Rightarrow> string" where
  "strings_Join [] = []"
| "strings_Join [e] = e"
| "strings_Join (e # es) = e @ CHR ''/'' # strings_Join es"

text \<open>
  \<open>path.Clean\<close>. The Go function walks the path with a read index \<open>r\<close> and writes
  to a buffer \<open>out\<close> of which \<open>out.w\<close> bytes are valid; \<open>dotdot\<close> is the index in
  the buffer below which a \<open>..\<close> element may not backtrack. Here the unread part of
  the path is the list \<open>p\<close>, the buffer is the list \<open>out\<close>, and \<open>out.w\<close> is its
  length.
\<close>

definition is_dot :: "string \<Rightarrow> bool" where
  \<comment> \<open>\<open>path[r] == '.' && (r+1 == n || path[r+1] == '/')\<close>\<close>
  "is_dot p = (case p of
      [] \<Rightarrow> False
    | c # cs \<Rightarrow> c = CHR ''.'' \<and> (case cs of [] \<Rightarrow> True | d # _ \<Rightarrow> d = CHR ''/''))"

definition is_dotdot :: "string \<Rightarrow> bool" where
  \<comment> \<open>\<open>path[r] == '.' && path[r+1] == '.' && (r+2 == n || path[r+2] == '/')\<close>\<close>
  "is_dotdot p = (case p of
      c # d # ds \<Rightarrow> c = CHR ''.'' \<and> d = CHR ''.'' \<and> (case ds of [] \<Rightarrow> True | e # _ \<Rightarrow> e = CHR ''/'')
    | _ \<Rightarrow> False)"

text \<open>
  Backtracking over the last element written: after \<open>out.w--\<close>, the loop
  \<open>for out.w > dotdot && out.index(out.w) != '/' { out.w-- }\<close>.
\<close>

function backtrack :: "string \<Rightarrow> nat \<Rightarrow> nat \<Rightarrow> nat" where
  "backtrack buf dotdot w =
     (if w > dotdot \<and> buf ! w \<noteq> CHR ''/'' then backtrack buf dotdot (w - 1) else w)"
  by pat_completeness auto
termination
  by (relation "measure (\<lambda>(buf, dotdot, w). w)") auto

declare backtrack.simps [simp del]

function clean_loop :: "bool \<Rightarrow> string \<Rightarrow> string \<Rightarrow> nat \<Rightarrow> string" where
  "clean_loop rooted [] out dotdot = out"
| "clean_loop rooted (c # cs) out dotdot =
     (if c = CHR ''/'' then clean_loop rooted cs out dotdot
      else if is_dot (c # cs) then clean_loop rooted cs out dotdot
      else if is_dotdot (c # cs) then
        (if length out > dotdot then
           clean_loop rooted (tl cs) (take (backtrack out dotdot (length out - 1)) out) dotdot
         else if \<not> rooted then
           (let out' = (if length out > 0 then out @ ''/'' else out) @ ''..''
            in clean_loop rooted (tl cs) out' (length out'))
         else clean_loop rooted (tl cs) out dotdot)
      else
        (let out' = (if (rooted \<and> length out \<noteq> 1) \<or> (\<not> rooted \<and> length out \<noteq> 0)
                     then out @ ''/'' else out)
         in clean_loop rooted (dropWhile (\<lambda>x. x \<noteq> CHR ''/'') cs)
              (out' @ c # takeWhile (\<lambda>x. x \<noteq> CHR ''/'') cs) dotdot))"
  by pat_completeness auto
termination
  by (relation "measure (\<lambda>(rooted, p, out, dotdot). length p)")
     (simp_all add: less_Suc_eq_le length_dropWhile_le)

definition Clean :: "string \<Rightarrow> string" where
  "Clean path =
     (if path = [] then ''.''
      else
        (let rooted = (hd path = CHR ''/'');
             out = (if rooted then clean_loop rooted (tl path) ''/'' 1
                    else clean_loop rooted path [] 0)
         in if out = [] then ''.'' else out))"

text \<open>
  \<open>path.Join\<close>: empty elements before the first non-empty one are skipped, the rest
  are joined with \<open>/\<close> and the result is cleaned; with no non-empty element the
  result is empty.
\<close>

fun path_Join :: "string list \<Rightarrow> string" where
  "path_Join [] = []"
| "path_Join (e # es) = (if e \<noteq> [] then Clean (strings_Join (e # es)) else path_Join es)"

subsection \<open>The name normalizer\<close>

datatype panic = SliceBoundsOutOfRange

text \<open>
  \<open>stripPathElements\<close>. The slice expression \<open>elems[strip:]\<close> panics when \<open>strip\<close>
  is negative; \<open>strip > len(elems)\<close> has been excluded before it.
\<close>

definition stripPathElements :: "string \<Rightarrow> int \<Rightarrow> panic + string" where
  "stripPathElements pkgname strip =
     (if strip = 0 then Inr pkgname
      else
        (let elems = Split pkgname CHR ''/''
         in if strip > int (length elems) then Inr []
            else if strip < 0 then Inl SliceBoundsOutOfRange
            else Inr (path_Join (drop (nat strip) elems))))"

definition mungePackageName :: "string \<Rightarrow> int \<Rightarrow> string \<Rightarrow> panic + string" where
  "mungePackageName n strip prefix =
     (case stripPathElements n strip of
        Inl p \<Rightarrow> Inl p
      | Inr n1 \<Rightarrow>
          (let n2 = path_Join [prefix, n1];
               n3 = Replace n2 CHR ''.'' CHR ''-'';
               n4 = Replace n3 CHR ''/'' CHR ''.''
           in Inr n4))"

subsection \<open>The execution model consumed by the generator\<close>

text \<open>
  Modelled from the spec: the types \<open>testjson.TestCase\<close>, \<open>testjson.Package\<close> and
  \<open>testjson.Execution\<close> are declared outside the files at hand. The generator only
  reads them, through the fields and query methods below (section 6 of the
  specification: ordered package names; per package the total count, the elapsed
  duration, the driver-failure flag, three ordered case lists, and the captured
  output keyed by test name, the empty key standing for the output of the whole
  package). Durations are \<open>time.Duration\<close> values, a count of nanoseconds.
\<close>

record TestCase =
  tc_Package :: string
  tc_Test :: string
  tc_Elapsed :: int

record Package =
  Total :: int
  Failed :: "TestCase list"
  Skipped :: "TestCase list"
  Passed :: "TestCase list"
  TestMainFailed :: bool
  Output :: "string \<Rightarrow> string"
  Elapsed :: int

record Execution =
  Packages :: "string list"
  PackageOf :: "string \<Rightarrow> Package"

subsection \<open>The report tree\<close>

text \<open>
  The structs of report.go. The \<open>XMLName\<close> fields only carry the element names for
  the encoder and are left out. Field names that occur in several structs are
  prefixed with the struct they belong to.
\<close>

record JUnitSkipMessage =
  Skip_Message :: string

record JUnitProperty =
  Property_Name :: string
  Property_Value :: string

record JUnitFailure =
  Failure_Message :: string
  Failure_Type :: string
  Failure_Contents :: string

record JUnitTestCase =
  Classname :: string
  Case_Name :: string
  Case_Time :: string
  SkipMessage :: "JUnitSkipMessage option"
  Failure :: "JUnitFailure option"

record JUnitTestSuite =
  Tests :: int
  Failures :: int
  Suite_Time :: string
  Suite_Name :: string
  Properties :: "JUnitProperty list"
  TestCases :: "JUnitTestCase list"

record JUnitTestSuites =
  Suites :: "JUnitTestSuite list"

subsection \<open>The surroundings of a run\<close>

text \<open>
  Go \<open>error\<close> values. \<open>errors.Wrap\<close> of github.com/pkg/errors keeps the cause and
  adds a message (and a stack trace, which is not modelled); it maps \<open>nil\<close> to
  \<open>nil\<close>.
\<close>

datatype error = Error string | WithMessage error string

definition Wrap :: "error option \<Rightarrow> string \<Rightarrow> error option" where
  "Wrap err message = (case err of None \<Rightarrow> None | Some e \<Rightarrow> Some (WithMessage e message))"

text \<open>
  What a run reads from outside the program: the process environment, the outcome
  of running \<open>go version\<close> (\<open>cmd.Output()\<close>: the captured standard output or an
  error), the text \<open>fmt.Sprintf("%f", d.Seconds())\<close> of a duration (floating-point
  formatting, taken as given), and the result of \<open>xml.MarshalIndent\<close> on a report
  tree.
\<close>

record Platform =
  Environ :: "string \<rightharpoonup> string"
  GoVersionOutput :: "error + string"
  SprintfSeconds :: "int \<Rightarrow> string"
  MarshalIndent :: "JUnitTestSuites \<Rightarrow> error + string"

definition LookupEnv :: "Platform \<Rightarrow> string \<Rightarrow> string option" where
  "LookupEnv P key = Environ P key"

definition Getenv :: "Platform \<Rightarrow> string \<Rightarrow> string" where
  "Getenv P key = (case Environ P key of None \<Rightarrow> [] | Some v \<Rightarrow> v)"

text \<open>
  \<open>strings.TrimSpace\<close> removes leading and trailing white space as defined by
  Unicode; on the bytes of a string these are the UTF-8 encodings below
  (U+0009 to U+000D, U+0020, U+0085, U+00A0, U+1680, U+2000 to U+200A, U+2028,
  U+2029, U+202F, U+205F, U+3000).
\<close>

definition space_runes :: "string list" where
  "space_runes =
     map (\<lambda>c. [c]) [CHR 0x09, CHR 0x0A, CHR 0x0B, CHR 0x0C, CHR 0x0D, CHR 0x20]
     @ [[CHR 0xC2, CHR 0x85], [CHR 0xC2, CHR 0xA0], [CHR 0xE1, CHR 0x9A, CHR 0x80]]
     @ map (\<lambda>c. [CHR 0xE2, CHR 0x80, c])
         [CHR 0x80, CHR 0x81, CHR 0x82, CHR 0x83, CHR 0x84, CHR 0x85, CHR 0x86, CHR 0x87,
          CHR 0x88, CHR 0x89, CHR 0x8A, CHR 0xA8, CHR 0xA9, CHR 0xAF]
     @ [[CHR 0xE2, CHR 0x81, CHR 0x9F], [CHR 0xE3, CHR 0x80, CHR 0x80]]"

definition leading_space :: "string list \<Rightarrow> string \<Rightarrow> nat" where
  \<comment> \<open>the width of the white-space rune the string starts with, or 0\<close>
  "leading_space runes s =
     (case filter (\<lambda>q. take (length q) s = q) runes of [] \<Rightarrow> 0 | q # _ \<Rightarrow> length q)"

function trim_left :: "string list \<Rightarrow> string \<Rightarrow> string" where
  "trim_left runes s =
     (if leading_space runes s = 0 \<or> s = [] then s
      else trim_left runes (drop (leading_space runes s) s))"
  by pat_completeness auto
termination
  by (relation "measure (\<lambda>(runes, s). length s)") auto

declare trim_left.simps [simp del]

definition TrimSpace :: "string \<Rightarrow> string" where
  "TrimSpace s = rev (trim_left (map rev space_runes) (rev (trim_left space_runes s)))"

definition TrimPrefix :: "string \<Rightarrow> string \<Rightarrow> string" where
  "TrimPrefix s prefix =
     (if take (length prefix) s = prefix then drop (length prefix) s else s)"

text \<open>\<open>xml.Header\<close>, the declaration line with its newline.\<close>

definition xml_Header :: string where
  \<open>xml_Header = ''<?xml version="1.0" encoding="UTF-8"?>'' @ [CHR 0x0A]\<close>

subsection \<open>Building the report\<close>

definition formatDurationAsSeconds :: "Platform \<Rightarrow> int \<Rightarrow> string" where
  "formatDurationAsSeconds P d = SprintfSeconds P d"

definition packageProperties :: "string \<Rightarrow> JUnitProperty list" where
  "packageProperties goVersion =
     [\<lparr>Property_Name = ''go.version'', Property_Value = goVersion\<rparr>]"

text \<open>
  \<open>goVersion\<close>. The debug and warning log lines are not part of the result and are
  not modelled.
\<close>

definition goVersion :: "Platform \<Rightarrow> string" where
  "goVersion P =
     (case LookupEnv P ''GOVERSION'' of
        Some version \<Rightarrow> version
      | None \<Rightarrow>
          (case GoVersionOutput P of
             Inl err \<Rightarrow> ''unknown''
           | Inr out \<Rightarrow> TrimPrefix (TrimSpace out) ''go version ''))"

definition newJUnitTestCase :: "Platform \<Rightarrow> TestCase \<Rightarrow> int \<Rightarrow> string \<Rightarrow> panic + JUnitTestCase" where
  "newJUnitTestCase P tc strip prefix =
     (case mungePackageName (tc_Package tc) strip prefix of
        Inl p \<Rightarrow> Inl p
      | Inr classname \<Rightarrow>
          Inr \<lparr>Classname = classname,
               Case_Name = tc_Test tc,
               Case_Time = formatDurationAsSeconds P (tc_Elapsed tc),
               SkipMessage = None,
               Failure = None\<rparr>)"

text \<open>
  The annotations the three loops of \<open>packageTestCases\<close> put on a fresh case
  record. The zero value of the unset \<open>Type\<close> field is the empty string.
\<close>

definition failed_case :: "Package \<Rightarrow> TestCase \<Rightarrow> JUnitTestCase \<Rightarrow> JUnitTestCase" where
  "failed_case pkg tc jtc =
     jtc\<lparr>Failure := Some \<lparr>Failure_Message = ''Failed'', Failure_Type = [],
                            Failure_Contents = Output pkg (tc_Test tc)\<rparr>\<rparr>"

definition skipped_case :: "Package \<Rightarrow> TestCase \<Rightarrow> JUnitTestCase \<Rightarrow> JUnitTestCase" where
  "skipped_case pkg tc jtc =
     jtc\<lparr>SkipMessage := Some \<lparr>Skip_Message = Output pkg (tc_Test tc)\<rparr>\<rparr>"

definition passed_case :: "Package \<Rightarrow> TestCase \<Rightarrow> JUnitTestCase \<Rightarrow> JUnitTestCase" where
  "passed_case pkg tc jtc = jtc"

text \<open>
  One \<open>for _, tc := range ...\<close> loop of \<open>packageTestCases\<close>: each case is
  converted, annotated and appended to \<open>cases\<close>. A panic in the conversion ends
  the loop.
\<close>

fun cases_loop ::
  "(TestCase \<Rightarrow> JUnitTestCase \<Rightarrow> JUnitTestCase) \<Rightarrow> Platform \<Rightarrow> int \<Rightarrow> string \<Rightarrow>
   TestCase list \<Rightarrow> JUnitTestCase list \<Rightarrow> panic + JUnitTestCase list" where
  "cases_loop annotate P strip prefix [] cases = Inr cases"
| "cases_loop annotate P strip prefix (tc # tcs) cases =
     (case newJUnitTestCase P tc strip prefix of
        Inl p \<Rightarrow> Inl p
      | Inr jtc \<Rightarrow> cases_loop annotate P strip prefix tcs (cases @ [annotate tc jtc]))"

text \<open>
  \<open>testjson.TestCase{Test: "TestMain"}\<close>: the other fields have their zero values.
\<close>

definition TestMain_case :: TestCase where
  "TestMain_case = \<lparr>tc_Package = [], tc_Test = ''TestMain'', tc_Elapsed = 0\<rparr>"

definition packageTestCases :: "Platform \<Rightarrow> Package \<Rightarrow> int \<Rightarrow> string \<Rightarrow> panic + JUnitTestCase list" where
  "packageTestCases P pkg strip prefix =
     (case (if TestMainFailed pkg then
              (case newJUnitTestCase P TestMain_case strip prefix of
                 Inl p \<Rightarrow> Inl p
               | Inr jtc \<Rightarrow>
                   Inr ([] @ [jtc\<lparr>Failure := Some \<lparr>Failure_Message = ''Failed'', Failure_Type = [],
                                                     Failure_Contents = Output pkg []\<rparr>\<rparr>]))
            else Inr []) of
        Inl p \<Rightarrow> Inl p
      | Inr cases0 \<Rightarrow>
          (case cases_loop (failed_case pkg) P strip prefix (Failed pkg) cases0 of
             Inl p \<Rightarrow> Inl p
           | Inr cases1 \<Rightarrow>
               (case cases_loop (skipped_case pkg) P strip prefix (Skipped pkg) cases1 of
                  Inl p \<Rightarrow> Inl p
                | Inr cases2 \<Rightarrow> cases_loop (passed_case pkg) P strip prefix (Passed pkg) cases2)))"

text \<open>
  The loop of \<open>generate\<close> over \<open>exec.Packages()\<close>, appending one suite per package.
\<close>

fun generate_loop ::
  "Platform \<Rightarrow> Execution \<Rightarrow> int \<Rightarrow> string \<Rightarrow> string \<Rightarrow> string list \<Rightarrow>
   JUnitTestSuite list \<Rightarrow> panic + JUnitTestSuite list" where
  "generate_loop P exec strip prefix version [] suites = Inr suites"
| "generate_loop P exec strip prefix version (pkgname # rest) suites =
     (let pkg = PackageOf exec pkgname;
          x = Getenv P ''GOTESTSUM_SUITE''
      in case (if x \<noteq> [] then Inr x else mungePackageName pkgname strip prefix) of
           Inl p \<Rightarrow> Inl p
         | Inr pkgname' \<Rightarrow>
             (case packageTestCases P pkg strip prefix of
                Inl p \<Rightarrow> Inl p
              | Inr cases \<Rightarrow>
                  generate_loop P exec strip prefix version rest
                    (suites @ [\<lparr>Tests = Total pkg,
                                Failures = int (length (Failed pkg)),
                                Suite_Time = formatDurationAsSeconds P (Elapsed pkg),
                                Suite_Name = pkgname',
                                Properties = packageProperties version,
                                TestCases = cases\<rparr>])))"

definition generate :: "Platform \<Rightarrow> Execution \<Rightarrow> int \<Rightarrow> string \<Rightarrow> panic + JUnitTestSuites" where
  "generate P exec strip prefix =
     (let version = goVersion P
      in case generate_loop P exec strip prefix version (Packages exec) [] of
           Inl p \<Rightarrow> Inl p
         | Inr suites \<Rightarrow> Inr \<lparr>Suites = suites\<rparr>)"

subsection \<open>Writing the report\<close>

text \<open>
  The output sink is an \<open>io.Writer\<close>: a state of some type \<open>'w\<close> and a \<open>Write\<close>
  method taking the state and the bytes to the new state and an optional error
  (the byte count it also returns is discarded by the caller).
\<close>

text \<open>
  The unexported \<open>write\<close> of the source, named \<open>write_xml\<close> here.
\<close>

definition write_xml ::
  "Platform \<Rightarrow> ('w \<Rightarrow> string \<Rightarrow> 'w \<times> error option) \<Rightarrow> 'w \<Rightarrow> JUnitTestSuites \<Rightarrow> 'w \<times> error option" where
  "write_xml P out_Write out suites =
     (case MarshalIndent P suites of
        Inl err \<Rightarrow> (out, Some err)
      | Inr doc \<Rightarrow>
          (case out_Write out xml_Header of
             (out1, Some err) \<Rightarrow> (out1, Some err)
           | (out1, None) \<Rightarrow> out_Write out1 doc))"

text \<open>
  \<open>Write\<close>, the entry point. The arguments of the inner \<open>write\<close> are evaluated first, so a
  panic in \<open>generate\<close> leaves before anything is marshalled or written.
\<close>

definition Write ::
  "Platform \<Rightarrow> ('w \<Rightarrow> string \<Rightarrow> 'w \<times> error option) \<Rightarrow> 'w \<Rightarrow> Execution \<Rightarrow> int \<Rightarrow> string \<Rightarrow>
   panic + 'w \<times> error option" where
  "Write P out_Write out exec strip prefix =
     (case generate P exec strip prefix of
        Inl p \<Rightarrow> Inl p
      | Inr suites \<Rightarrow>
          (case write_xml P out_Write out suites of
             (out', err) \<Rightarrow> Inr (out', Wrap err ''failed to write JUnit XML'')))"

subsection \<open>Notions used to state the properties\<close>

text \<open>
  The separator translation of the normalizer: every dot becomes a hyphen, then
  every slash becomes a dot.
\<close>

definition separator_translation :: "string \<Rightarrow> string" where
  "separator_translation s = Replace (Replace s CHR ''.'' CHR ''-'') CHR ''/'' CHR ''.''"

text \<open>
  The normalizer as the specification words it (section 4.1): split the name on the
  path separator; if the strip count exceeds the number of segments the remainder
  is empty, otherwise that many leading segments are dropped; the prefix, when
  there is one, and the remaining segments are joined with the path separator;
  then the separators are translated.
\<close>

definition spec_normalize :: "string \<Rightarrow> nat \<Rightarrow> string \<Rightarrow> string" where
  "spec_normalize name strip prefix =
     (let segments = Split name CHR ''/'';
          remaining = (if strip > length segments then [] else drop strip segments);
          joined = strings_Join ((if prefix = [] then [] else [prefix]) @ remaining)
      in separator_translation joined)"

text \<open>
  A plain path element is a non-empty segment other than \<open>.\<close> and \<open>..\<close>; a plain
  path has only plain elements between its slashes, as Go import paths do.
\<close>

definition plain_elem :: "string \<Rightarrow> bool" where
  "plain_elem e \<longleftrightarrow> e \<noteq> [] \<and> e \<noteq> ''.'' \<and> e \<noteq> ''..'' \<and> CHR ''/'' \<notin> set e"

definition plain_path :: "string \<Rightarrow> bool" where
  "plain_path s = list_all plain_elem (Split s CHR ''/'')"

text \<open>The output buffer of \<open>clean_loop\<close> once the separator before the next element is written.\<close>

definition sep_out :: "string \<Rightarrow> string" where
  "sep_out out = (if out = [] then [] else out @ ''/'')"

text \<open>
  The test cases a suite is built from, in the order the loops of
  \<open>packageTestCases\<close> visit them.
\<close>

definition source_cases :: "Package \<Rightarrow> TestCase list" where
  "source_cases pkg =
     (if TestMainFailed pkg then [TestMain_case] else []) @ Failed pkg @ Skipped pkg @ Passed pkg"

text \<open>
  A case record \<open>jtc\<close> is the record of test case \<open>tc\<close> with the given outcome
  annotations.
\<close>

definition record_of ::
  "Platform \<Rightarrow> int \<Rightarrow> string \<Rightarrow> JUnitSkipMessage option \<Rightarrow> JUnitFailure option \<Rightarrow>
   TestCase \<Rightarrow> JUnitTestCase \<Rightarrow> bool" where
  "record_of P strip prefix skip failure tc jtc \<longleftrightarrow>
     mungePackageName (tc_Package tc) strip prefix = Inr (Classname jtc) \<and>
     Case_Name jtc = tc_Test tc \<and>
     Case_Time jtc = formatDurationAsSeconds P (tc_Elapsed tc) \<and>
     SkipMessage jtc = skip \<and>
     Failure jtc = failure"

definition failure_with :: "string \<Rightarrow> JUnitFailure" where
  "failure_with contents =
     \<lparr>Failure_Message = ''Failed'', Failure_Type = [], Failure_Contents = contents\<rparr>"

text \<open>
  A suite record is the suite of a package of the execution when it has the
  attributes and the case records that one round of the loop of \<open>generate\<close>
  gives it.
\<close>

definition suite_of ::
  "Platform \<Rightarrow> Execution \<Rightarrow> int \<Rightarrow> string \<Rightarrow> string \<Rightarrow> string \<Rightarrow> JUnitTestSuite \<Rightarrow> bool" where
  "suite_of P exec strip prefix version pkgname suite \<longleftrightarrow>
     Tests suite = Total (PackageOf exec pkgname) \<and>
     Failures suite = int (length (Failed (PackageOf exec pkgname))) \<and>
     Suite_Time suite = formatDurationAsSeconds P (Elapsed (PackageOf exec pkgname)) \<and>
     Properties suite = packageProperties version \<and>
     packageTestCases P (PackageOf exec pkgname) strip prefix = Inr (TestCases suite) \<and>
     (if Getenv P ''GOTESTSUM_SUITE'' \<noteq> [] then Suite_Name suite = Getenv P ''GOTESTSUM_SUITE''
      else mungePackageName pkgname strip prefix = Inr (Suite_Name suite))"

subsection \<open>A sample run\<close>

text \<open>
  A run with two packages. The \<open>TestMain\<close> of \<open>example.com/badmain\<close> exited
  non-zero before any test ran: no test was counted, the three partitions are empty
  and the driver-failure flag is set. \<open>example.com/sample\<close> ran four tests, of
  which one failed and one was skipped. All durations are zero, for which
  \<open>%f\<close> prints \<open>0.000000\<close>. The environment fixes the toolchain version, as the
  repository's own test of \<open>Write\<close> does.
\<close>

definition badmain_pkg :: Package where
  "badmain_pkg =
     \<lparr>Total = 0, Failed = [], Skipped = [], Passed = [], TestMainFailed = True,
      Output = (\<lambda>test. if test = [] then ''exit status 1'' else []), Elapsed = 0\<rparr>"

definition sample_case :: "string \<Rightarrow> TestCase" where
  "sample_case test = \<lparr>tc_Package = ''example.com/sample'', tc_Test = test, tc_Elapsed = 0\<rparr>"

definition sample_pkg :: Package where
  "sample_pkg =
     \<lparr>Total = 4,
      Failed = [sample_case ''TestFails''],
      Skipped = [sample_case ''TestSkipped''],
      Passed = [sample_case ''TestPasses'', sample_case ''TestAlsoPasses''],
      TestMainFailed = False,
      Output = (\<lambda>test. if test = ''TestFails'' then ''--- FAIL: TestFails''
                       else if test = ''TestSkipped'' then ''--- SKIP: TestSkipped''
                       else []),
      Elapsed = 0\<rparr>"

definition sample_exec :: Execution where
  "sample_exec =
     \<lparr>Packages = [''example.com/badmain'', ''example.com/sample''],
      PackageOf = (\<lambda>name. if name = ''example.com/badmain'' then badmain_pkg else sample_pkg)\<rparr>"

definition test_platform :: Platform where
  "test_platform =
     \<lparr>Environ = [''GOVERSION'' \<mapsto> ''go7.7.7''],
      GoVersionOutput = Inl (Error ''exec: go: executable file not found in $PATH''),
      SprintfSeconds = (\<lambda>d. ''0.000000''),
      MarshalIndent = (\<lambda>suites. Inl (Error ''xml: unsupported type''))\<rparr>"

definition sample_record :: "string \<Rightarrow> JUnitTestCase" where
  "sample_record test =
     \<lparr>Classname = ''example-com.sample'', Case_Name = test, Case_Time = ''0.000000'',
      SkipMessage = None, Failure = None\<rparr>"

definition badmain_suite :: JUnitTestSuite where
  "badmain_suite =
     \<lparr>Tests = 0, Failures = 0, Suite_Time = ''0.000000'',
      Suite_Name = ''example-com.badmain'',
      Properties = [\<lparr>Property_Name = ''go.version'', Property_Value = ''go7.7.7''\<rparr>],
      TestCases = [\<lparr>Classname = [], Case_Name = ''TestMain'', Case_Time = ''0.000000'',
                    SkipMessage = None,
                    Failure = Some (failure_with ''exit status 1'')\<rparr>]\<rparr>"

definition sample_suite :: JUnitTestSuite where
  "sample_suite =
     \<lparr>Tests = 4, Failures = 1, Suite_Time = ''0.000000'',
      Suite_Name = ''example-com.sample'',
      Properties = [\<lparr>Property_Name = ''go.version'', Property_Value = ''go7.7.7''\<rparr>],
      TestCases =
        [(sample_record ''TestFails'')\<lparr>Failure := Some (failure_with ''--- FAIL: TestFails'')\<rparr>,
         (sample_record ''TestSkipped'')
           \<lparr>SkipMessage := Some \<lparr>Skip_Message = ''--- SKIP: TestSkipped''\<rparr>\<rparr>,
         sample_record ''TestPasses'',
         sample_record ''TestAlsoPasses'']\<rparr>"

definition sample_report :: JUnitTestSuites where
  "sample_report = \<lparr>Suites = [badmain_suite, sample_suite]\<rparr>"

text \<open>The same platform with the suite-name override set.\<close>

definition override_platform :: Platform where
  "override_platform =
     test_platform\<lparr>Environ := [''GOVERSION'' \<mapsto> ''go7.7.7'', ''GOTESTSUM_SUITE'' \<mapsto> ''nightly'']\<rparr>"

text \<open>A sink that records every chunk written to it and never fails.\<close>

definition log_Write :: "string list \<Rightarrow> string \<Rightarrow> string list \<times> error option" where
  "log_Write out bytes = (out @ [bytes], None)"

section \<open>Properties of the library functions\<close>

subsection \<open>Cleaning paths\<close>


lemma is_dot_snoc: "is_dot (c # cs @ ''/'') = is_dot (c # cs)"
  by (cases cs) (auto simp: is_dot_def)

lemma is_dotdot_snoc: "is_dotdot (c # cs @ ''/'') = is_dotdot (c # cs)"
proof (cases cs)
  case Nil
  then show ?thesis by (simp add: is_dotdot_def)
next
  case (Cons d ds)
  then show ?thesis by (cases ds) (auto simp: is_dotdot_def)
qed

lemma is_dotdot_tl: "is_dotdot (c # cs) \<Longrightarrow> tl (cs @ ''/'') = tl cs @ ''/''"
  by (cases cs) (auto simp: is_dotdot_def)

lemma takeWhile_snoc_slash:
  "takeWhile (\<lambda>x. x \<noteq> CHR ''/'') (cs @ ''/'') = takeWhile (\<lambda>x. x \<noteq> CHR ''/'') cs"
  by (induction cs) auto

lemma dropWhile_snoc_slash:
  "dropWhile (\<lambda>x. x \<noteq> CHR ''/'') (cs @ ''/'') = dropWhile (\<lambda>x. x \<noteq> CHR ''/'') cs @ ''/''"
  by (induction cs) auto

lemma clean_loop_snoc_slash:
  "clean_loop rooted (p @ ''/'') out dotdot = clean_loop rooted p out dotdot"
proof (induction rooted p out dotdot rule: clean_loop.induct)
  case (1 rooted out dotdot)
  show ?case by simp
next
  case (2 rooted c cs out dotdot)
  show ?case
  proof (cases "c = CHR ''/''")
    case True
    with "2.IH"(1) show ?thesis by simp
  next
    case slash: False
    show ?thesis
    proof (cases "is_dot (c # cs)")
      case True
      with slash "2.IH"(2) show ?thesis by (simp add: is_dot_snoc)
    next
      case dot: False
      show ?thesis
      proof (cases "is_dotdot (c # cs)")
        case True
        with slash dot "2.IH"(3,4,5) show ?thesis
          by (simp add: is_dot_snoc is_dotdot_snoc is_dotdot_tl Let_def)
      next
        case False
        with slash dot "2.IH"(6) show ?thesis
          by (simp add: is_dot_snoc is_dotdot_snoc takeWhile_snoc_slash dropWhile_snoc_slash Let_def)
      qed
    qed
  qed
qed

lemma Clean_snoc_slash:
  assumes "p \<noteq> []"
  shows "Clean (p @ ''/'') = Clean p"
proof (cases p)
  case Nil
  with assms show ?thesis by simp
next
  case (Cons a list)
  have "clean_loop r (a # list @ ''/'') out d = clean_loop r (a # list) out d" for r out d
    using clean_loop_snoc_slash [of r "a # list" out d] by simp
  with Cons show ?thesis
    by (simp add: Clean_def clean_loop_snoc_slash Let_def del: clean_loop.simps)
qed


lemma Split_not_Nil: "Split s sep \<noteq> []"
  by (induction s) (auto split: list.splits)

lemma strings_Join_Cons:
  "es \<noteq> [] \<Longrightarrow> strings_Join (e # es) = e @ CHR ''/'' # strings_Join es"
  by (cases es) auto

lemma strings_Join_Split: "strings_Join (Split s CHR ''/'') = s"
proof (induction s)
  case Nil
  show ?case by simp
next
  case (Cons c cs)
  show ?case
  proof (cases "c = CHR ''/''")
    case True
    with Cons show ?thesis by (simp add: strings_Join_Cons Split_not_Nil)
  next
    case False
    obtain x xs where sp: "Split cs CHR ''/'' = x # xs"
      using Split_not_Nil [of cs "CHR ''/''"] by (cases "Split cs CHR ''/''") auto
    with Cons False show ?thesis by (cases xs) auto
  qed
qed

lemma strings_Join_append:
  "xs \<noteq> [] \<Longrightarrow> ys \<noteq> [] \<Longrightarrow>
   strings_Join (xs @ ys) = strings_Join xs @ CHR ''/'' # strings_Join ys"
proof (induction xs)
  case Nil
  then show ?case by simp
next
  case (Cons x xs)
  then show ?case by (cases xs) (auto simp: strings_Join_Cons)
qed

lemma takeWhile_plain:
  "CHR ''/'' \<notin> set s \<Longrightarrow> takeWhile (\<lambda>x. x \<noteq> CHR ''/'') (s @ CHR ''/'' # r) = s"
  by (induction s) auto

lemma dropWhile_plain:
  "CHR ''/'' \<notin> set s \<Longrightarrow> dropWhile (\<lambda>x. x \<noteq> CHR ''/'') (s @ CHR ''/'' # r) = CHR ''/'' # r"
  by (induction s) auto

lemma takeWhile_plain_end:
  "CHR ''/'' \<notin> set s \<Longrightarrow> takeWhile (\<lambda>x. x \<noteq> CHR ''/'') s = s"
  by (induction s) auto

lemma dropWhile_plain_end:
  "CHR ''/'' \<notin> set s \<Longrightarrow> dropWhile (\<lambda>x. x \<noteq> CHR ''/'') s = []"
  by (induction s) auto

lemma plain_not_dot:
  assumes "plain_elem (c # s)" and "r = [] \<or> hd r = CHR ''/''"
  shows "\<not> is_dot (c # s @ r)"
  using assms by (cases s; cases r) (auto simp: plain_elem_def is_dot_def)

lemma plain_not_dotdot:
  assumes "plain_elem (c # s)" and "r = [] \<or> hd r = CHR ''/''"
  shows "\<not> is_dotdot (c # s @ r)"
proof (cases s)
  case Nil
  with assms show ?thesis by (cases r) (auto simp: plain_elem_def is_dotdot_def)
next
  case (Cons d ds)
  with assms show ?thesis by (cases ds; cases r) (auto simp: plain_elem_def is_dotdot_def)
qed

lemma clean_loop_plain_end:
  assumes "plain_elem e"
  shows "clean_loop False e out dotdot = sep_out out @ e"
proof -
  from assms obtain c s where e: "e = c # s" by (cases e) (auto simp: plain_elem_def)
  from assms e have c: "c \<noteq> CHR ''/''" and s: "CHR ''/'' \<notin> set s"
    by (auto simp: plain_elem_def)
  have nd: "\<not> is_dot (c # s)" using plain_not_dot [of c s "[]"] assms e by simp
  have ndd: "\<not> is_dotdot (c # s)" using plain_not_dotdot [of c s "[]"] assms e by simp
  show ?thesis
    unfolding e using c nd ndd
    by (simp add: takeWhile_plain_end [OF s] dropWhile_plain_end [OF s] sep_out_def)
qed

lemma clean_loop_plain_step:
  assumes "plain_elem e"
  shows "clean_loop False (e @ CHR ''/'' # r) out dotdot = clean_loop False r (sep_out out @ e) dotdot"
proof -
  from assms obtain c s where e: "e = c # s" by (cases e) (auto simp: plain_elem_def)
  from assms e have c: "c \<noteq> CHR ''/''" and s: "CHR ''/'' \<notin> set s"
    by (auto simp: plain_elem_def)
  have nd: "\<not> is_dot (c # s @ CHR ''/'' # r)"
    using plain_not_dot [of c s "CHR ''/'' # r"] assms e by simp
  have ndd: "\<not> is_dotdot (c # s @ CHR ''/'' # r)"
    using plain_not_dotdot [of c s "CHR ''/'' # r"] assms e by simp
  show ?thesis
    unfolding e using c nd ndd
    by (simp add: takeWhile_plain [OF s] dropWhile_plain [OF s] sep_out_def)
qed

lemma clean_loop_plain:
  "es \<noteq> [] \<Longrightarrow> list_all plain_elem es \<Longrightarrow>
   clean_loop False (strings_Join es) out dotdot = sep_out out @ strings_Join es"
proof (induction es arbitrary: out)
  case Nil
  then show ?case by simp
next
  case (Cons e es)
  show ?case
  proof (cases es)
    case Nil
    with Cons.prems show ?thesis by (simp add: clean_loop_plain_end)
  next
    case (Cons e' es')
    have ne: "sep_out out @ e \<noteq> []" using Cons.prems by (auto simp: plain_elem_def)
    have "clean_loop False (strings_Join (e # es)) out dotdot
          = clean_loop False (strings_Join es) (sep_out out @ e) dotdot"
      using Cons.prems Cons by (simp add: strings_Join_Cons clean_loop_plain_step del: clean_loop.simps)
    also have "\<dots> = sep_out (sep_out out @ e) @ strings_Join es"
      using Cons.IH [of "sep_out out @ e"] Cons.prems Cons by simp
    also have "\<dots> = sep_out out @ strings_Join (e # es)"
      using ne Cons by (simp add: sep_out_def)
    finally show ?thesis .
  qed
qed

lemma Clean_plain:
  assumes "es \<noteq> []" and "list_all plain_elem es"
  shows "Clean (strings_Join es) = strings_Join es"
proof -
  from assms obtain e es' where es: "es = e # es'" by (cases es) auto
  with assms obtain c s where e: "e = c # s" and c: "c \<noteq> CHR ''/''"
    by (cases e) (auto simp: plain_elem_def)
  have hd: "strings_Join es \<noteq> []" "hd (strings_Join es) \<noteq> CHR ''/''"
    using es e c by (cases es'; simp)+
  show ?thesis
    using hd clean_loop_plain [OF assms, of "[]" 0]
    by (simp add: Clean_def sep_out_def Let_def)
qed

lemma path_Join_plain: "list_all plain_elem es \<Longrightarrow> path_Join es = strings_Join es"
proof (cases es)
  case Nil
  then show ?thesis by simp
next
  case (Cons e es')
  assume "list_all plain_elem es"
  with Cons Clean_plain [of es] show ?thesis by (auto simp: plain_elem_def)
qed

subsection \<open>The normalizer on plain paths and on exhausted names\<close>

lemma list_all_drop: "list_all P xs \<Longrightarrow> list_all P (drop n xs)"
  by (auto simp: list_all_iff dest: in_set_dropD)

lemma plain_path_not_Nil: "plain_path s \<Longrightarrow> s \<noteq> []"
  by (auto simp: plain_path_def plain_elem_def)

lemma Clean_plain_path: "plain_path s \<Longrightarrow> Clean s = s"
  using Clean_plain [of "Split s CHR ''/''"]
  by (simp add: plain_path_def Split_not_Nil strings_Join_Split)

lemma strings_Join_plain_not_Nil:
  "es \<noteq> [] \<Longrightarrow> list_all plain_elem es \<Longrightarrow> strings_Join es \<noteq> []"
  by (cases es rule: strings_Join.cases) (auto simp: plain_elem_def)

lemma path_Join_prefix:
  assumes p: "prefix = [] \<or> plain_path prefix" and es: "list_all plain_elem es"
  shows "path_Join [prefix, strings_Join es]
         = strings_Join ((if prefix = [] then [] else [prefix]) @ es)"
proof (cases "prefix = []")
  case True
  show ?thesis
  proof (cases "es = []")
    case True
    with \<open>prefix = []\<close> show ?thesis by simp
  next
    case False
    with es \<open>prefix = []\<close> show ?thesis
      by (simp add: strings_Join_plain_not_Nil Clean_plain)
  qed
next
  case False
  with p have pp: "plain_path prefix" by simp
  show ?thesis
  proof (cases "es = []")
    case True
    with False pp show ?thesis
      using Clean_snoc_slash [of prefix] by (simp add: Clean_plain_path)
  next
    case ne: False
    have "prefix @ CHR ''/'' # strings_Join es = strings_Join (Split prefix CHR ''/'' @ es)"
      using ne by (simp add: strings_Join_append Split_not_Nil strings_Join_Split)
    moreover have "Clean (strings_Join (Split prefix CHR ''/'' @ es)) = strings_Join (Split prefix CHR ''/'' @ es)"
      using pp es by (intro Clean_plain) (simp_all add: plain_path_def Split_not_Nil)
    ultimately show ?thesis
      using False ne by (simp add: strings_Join_Cons)
  qed
qed

lemma stripPathElements_plain:
  assumes "plain_path name" and "0 \<le> strip"
  shows "stripPathElements name strip
         = Inr (strings_Join (if nat strip > length (Split name CHR ''/'') then []
                              else drop (nat strip) (Split name CHR ''/'')))"
proof (cases "strip = 0")
  case True
  then show ?thesis by (simp add: stripPathElements_def strings_Join_Split)
next
  case False
  have "list_all plain_elem (drop (nat strip) (Split name CHR ''/''))"
    using assms(1) by (simp add: plain_path_def list_all_drop)
  then have "path_Join (drop (nat strip) (Split name CHR ''/''))
             = strings_Join (drop (nat strip) (Split name CHR ''/''))"
    by (rule path_Join_plain)
  with False assms(2) show ?thesis
    by (auto simp: stripPathElements_def Let_def)
qed

lemma mungePackageName_plain:
  assumes "plain_path name" and "prefix = [] \<or> plain_path prefix" and "0 \<le> strip"
  shows "mungePackageName name strip prefix = Inr (spec_normalize name (nat strip) prefix)"
proof -
  let ?rest = "if nat strip > length (Split name CHR ''/'') then []
               else drop (nat strip) (Split name CHR ''/'')"
  have "list_all plain_elem ?rest"
    using assms(1) by (simp add: plain_path_def list_all_drop)
  from path_Join_prefix [OF assms(2) this] stripPathElements_plain [OF assms(1,3)]
  show ?thesis
    by (simp add: mungePackageName_def spec_normalize_def separator_translation_def Let_def)
qed

lemma mungePackageName_strip_all:
  assumes "int (length (Split name CHR ''/'')) \<le> strip"
  shows "mungePackageName name strip prefix
         = Inr (separator_translation (if prefix = [] then [] else Clean prefix))"
proof -
  have pos: "strip \<noteq> 0" "\<not> strip < 0"
    using assms Split_not_Nil [of name "CHR ''/''"] by (cases "Split name CHR ''/''"; simp)+
  have "stripPathElements name strip = Inr []"
    using assms pos by (auto simp: stripPathElements_def Let_def)
  then show ?thesis
    using Clean_snoc_slash [of prefix]
    by (simp add: mungePackageName_def separator_translation_def)
qed

lemma mungePackageName_identity:
  "mungePackageName name 0 [] = Inr (separator_translation (if name = [] then [] else Clean name))"
  by (simp add: mungePackageName_def stripPathElements_def separator_translation_def)

lemma mungePackageName_total:
  "0 \<le> strip \<Longrightarrow> \<exists>r. mungePackageName name strip prefix = Inr r"
  by (simp add: mungePackageName_def stripPathElements_def Let_def)

lemma mungePackageName_negative:
  "strip < 0 \<Longrightarrow> mungePackageName name strip prefix = Inl SliceBoundsOutOfRange"
  by (simp add: mungePackageName_def stripPathElements_def Let_def)

section \<open>The name normalizer\<close>

text \<open>
  Claim C3, as amended. For every name that is a plain path, every prefix that is
  empty or a plain path, and every strip count that is not negative, the
  normalizer returns what the specification's algorithm gives: the name split on
  the slash, the first strip segments dropped (nothing left when strip exceeds the
  number of segments), the prefix and the remaining segments joined with slashes,
  every dot replaced by a hyphen and then every slash by a dot.
\<close>

theorem mungePackageName_refines_spec:
  assumes "plain_path name" and "prefix = [] \<or> plain_path prefix" and "0 \<le> strip"
  shows "mungePackageName name strip prefix = Inr (spec_normalize name (nat strip) prefix)"
  using assms by (rule mungePackageName_plain)

theorem mungePackageName_refines_spec_witness:
  "plain_path ''github.com/org/pkg'' \<and>
   mungePackageName ''github.com/org/pkg'' 0 [] = Inr ''github-com.org.pkg'' \<and>
   spec_normalize ''github.com/org/pkg'' 0 [] = ''github-com.org.pkg''"
proof -
  have p: "plain_path ''github.com/org/pkg''" by code_simp
  have s: "spec_normalize ''github.com/org/pkg'' 0 [] = ''github-com.org.pkg''" by code_simp
  from mungePackageName_refines_spec [OF p, of "[]" 0]
  have "mungePackageName ''github.com/org/pkg'' 0 []
        = Inr (spec_normalize ''github.com/org/pkg'' 0 [])" by simp
  with p s show ?thesis by simp
qed

text \<open>
  The claim as stated, for every name, strip count and prefix, fails: a prefix
  with a trailing slash (the case \<open>prefix_trailing\<close> of the repository's test) is
  cleaned by \<open>path.Join\<close>, where joining with slashes keeps an empty segment.
\<close>

theorem mungePackageName_refines_spec_counterexample:
  "mungePackageName ''a/b/c/d/e/f'' 0 ''1/2/3/'' = Inr ''1.2.3.a.b.c.d.e.f'' \<and>
   spec_normalize ''a/b/c/d/e/f'' 0 ''1/2/3/'' = ''1.2.3..a.b.c.d.e.f'' \<and>
   mungePackageName ''a/b/c/d/e/f'' 0 ''1/2/3/'' \<noteq> Inr (spec_normalize ''a/b/c/d/e/f'' 0 ''1/2/3/'')"
  by code_simp

text \<open>
  Claim C4, as amended. For every name that is empty or a plain path, the
  normalizer with strip 0 and no prefix returns the name with only its separators
  translated.
\<close>

theorem mungePackageName_identity_on_plain:
  assumes "name = [] \<or> plain_path name"
  shows "mungePackageName name 0 [] = Inr (separator_translation name)"
  using assms by (auto simp: mungePackageName_identity Clean_plain_path)

theorem mungePackageName_identity_on_plain_witness:
  "plain_path ''github.com/org/pkg'' \<and>
   mungePackageName ''github.com/org/pkg'' 0 [] = Inr (separator_translation ''github.com/org/pkg'') \<and>
   separator_translation ''github.com/org/pkg'' = ''github-com.org.pkg'' \<and>
   mungePackageName [] 0 [] = Inr (separator_translation [])"
proof -
  have p: "plain_path ''github.com/org/pkg''" by code_simp
  have t: "separator_translation ''github.com/org/pkg'' = ''github-com.org.pkg''" by code_simp
  from p have "[] = ''github.com/org/pkg'' \<or> plain_path ''github.com/org/pkg''" by simp
  from p t mungePackageName_identity_on_plain [of "''github.com/org/pkg''"]
       mungePackageName_identity_on_plain [of "[]"]
  show ?thesis by simp
qed

text \<open>
  The claim as stated, for every name, fails on a name that is not a clean path:
  the empty segment of \<open>a//b\<close> disappears.
\<close>

theorem mungePackageName_identity_counterexample:
  "mungePackageName ''a//b'' 0 [] = Inr ''a.b'' \<and>
   separator_translation ''a//b'' = ''a..b'' \<and>
   mungePackageName ''a//b'' 0 [] \<noteq> Inr (separator_translation ''a//b'')"
  by code_simp

text \<open>
  Claim C5. When the strip count is at least the number of segments of the name,
  the normalizer returns a result and never panics, and the result is what the
  normalizer gives for the prefix alone: the empty string when there is no prefix,
  and the prefix with its separators translated when the prefix is a plain path.
\<close>

theorem mungePackageName_strip_exhausts:
  assumes "int (length (Split name CHR ''/'')) \<le> strip"
  shows "(\<exists>r. mungePackageName name strip prefix = Inr r) \<and>
         mungePackageName name strip prefix = mungePackageName prefix 0 [] \<and>
         (prefix = [] \<longrightarrow> mungePackageName name strip prefix = Inr []) \<and>
         (plain_path prefix \<longrightarrow>
            mungePackageName name strip prefix = Inr (separator_translation prefix))"
  using mungePackageName_strip_all [OF assms, of prefix]
  by (auto simp: mungePackageName_identity Clean_plain_path separator_translation_def Replace_def)

theorem mungePackageName_strip_exhausts_witness:
  "mungePackageName ''a/b/c/d/e/f'' 6 [] = Inr [] \<and>
   mungePackageName ''a/b/c/d/e/f'' 7 [] = Inr [] \<and>
   mungePackageName ''a/b/c/d/e/f'' 6 ''1/2/3'' = Inr ''1.2.3''"
proof -
  have l6: "int (length (Split ''a/b/c/d/e/f'' CHR ''/'')) \<le> 6" by code_simp
  have l7: "int (length (Split ''a/b/c/d/e/f'' CHR ''/'')) \<le> 7" by code_simp
  have p: "plain_path ''1/2/3''" by code_simp
  have t: "separator_translation ''1/2/3'' = ''1.2.3''" by code_simp
  from mungePackageName_strip_exhausts [OF l6, of "[]"]
  have a: "mungePackageName ''a/b/c/d/e/f'' 6 [] = Inr []" by blast
  from mungePackageName_strip_exhausts [OF l7, of "[]"]
  have b: "mungePackageName ''a/b/c/d/e/f'' 7 [] = Inr []" by blast
  from mungePackageName_strip_exhausts [OF l6, of "''1/2/3''"] p
  have "mungePackageName ''a/b/c/d/e/f'' 6 ''1/2/3'' = Inr (separator_translation ''1/2/3'')"
    by blast
  with a b t show ?thesis by simp
qed

section \<open>The suite builder\<close>

subsection \<open>What the loops return\<close>

lemma newJUnitTestCase_record:
  "newJUnitTestCase P tc strip prefix = Inr jtc \<Longrightarrow> record_of P strip prefix None None tc jtc"
  by (auto simp: newJUnitTestCase_def record_of_def split: sum.splits)

lemma newJUnitTestCase_total:
  "0 \<le> strip \<Longrightarrow> \<exists>jtc. newJUnitTestCase P tc strip prefix = Inr jtc"
  using mungePackageName_total [of strip "tc_Package tc" prefix]
  by (auto simp: newJUnitTestCase_def)

lemma cases_loop_result:
  "cases_loop annotate P strip prefix tcs acc = Inr cases \<Longrightarrow>
   \<exists>js. cases = acc @ js \<and>
        list_all2 (\<lambda>tc j. \<exists>jtc. newJUnitTestCase P tc strip prefix = Inr jtc \<and> j = annotate tc jtc) tcs js"
proof (induction tcs arbitrary: acc)
  case Nil
  then show ?case by simp
next
  case (Cons tc tcs)
  from Cons.prems obtain jtc where
    j: "newJUnitTestCase P tc strip prefix = Inr jtc" and
    r: "cases_loop annotate P strip prefix tcs (acc @ [annotate tc jtc]) = Inr cases"
    by (auto split: sum.splits)
  from Cons.IH [OF r] obtain js where
    "cases = (acc @ [annotate tc jtc]) @ js"
    "list_all2 (\<lambda>tc j. \<exists>jtc. newJUnitTestCase P tc strip prefix = Inr jtc \<and> j = annotate tc jtc) tcs js"
    by blast
  with j show ?case by (intro exI [of _ "annotate tc jtc # js"]) simp
qed

lemma cases_loop_total:
  "0 \<le> strip \<Longrightarrow> \<exists>cases. cases_loop annotate P strip prefix tcs acc = Inr cases"
proof (induction tcs arbitrary: acc)
  case Nil
  show ?case by simp
next
  case (Cons tc tcs)
  from newJUnitTestCase_total [OF Cons.prems, of P tc prefix]
  obtain jtc where "newJUnitTestCase P tc strip prefix = Inr jtc" ..
  with Cons.IH [OF Cons.prems, of "acc @ [annotate tc jtc]"] show ?case by simp
qed

lemma failed_case_record:
  "newJUnitTestCase P tc strip prefix = Inr jtc \<Longrightarrow>
   record_of P strip prefix None (Some (failure_with (Output pkg (tc_Test tc)))) tc (failed_case pkg tc jtc)"
  by (drule newJUnitTestCase_record) (simp add: record_of_def failed_case_def failure_with_def)

lemma skipped_case_record:
  "newJUnitTestCase P tc strip prefix = Inr jtc \<Longrightarrow>
   record_of P strip prefix (Some \<lparr>Skip_Message = Output pkg (tc_Test tc)\<rparr>) None tc (skipped_case pkg tc jtc)"
  by (drule newJUnitTestCase_record) (simp add: record_of_def skipped_case_def)

lemma passed_case_record:
  "newJUnitTestCase P tc strip prefix = Inr jtc \<Longrightarrow>
   record_of P strip prefix None None tc (passed_case pkg tc jtc)"
  by (drule newJUnitTestCase_record) (simp add: passed_case_def)

lemma packageTestCases_result:
  assumes "packageTestCases P pkg strip prefix = Inr cases"
  shows "\<exists>main failed skipped passed.
           cases = main @ failed @ skipped @ passed \<and>
           (if TestMainFailed pkg
            then \<exists>j. main = [j] \<and>
                   record_of P strip prefix None (Some (failure_with (Output pkg []))) TestMain_case j
            else main = []) \<and>
           list_all2 (\<lambda>tc. record_of P strip prefix None
                              (Some (failure_with (Output pkg (tc_Test tc)))) tc) (Failed pkg) failed \<and>
           list_all2 (\<lambda>tc. record_of P strip prefix
                              (Some \<lparr>Skip_Message = Output pkg (tc_Test tc)\<rparr>) None tc) (Skipped pkg) skipped \<and>
           list_all2 (record_of P strip prefix None None) (Passed pkg) passed"
proof -
  let ?first = "if TestMainFailed pkg then
              (case newJUnitTestCase P TestMain_case strip prefix of
                 Inl p \<Rightarrow> Inl p
               | Inr jtc \<Rightarrow>
                   Inr ([] @ [jtc\<lparr>Failure := Some \<lparr>Failure_Message = ''Failed'', Failure_Type = [],
                                                     Failure_Contents = Output pkg []\<rparr>\<rparr>]))
            else Inr []"
  from assms obtain cases0 cases1 cases2 where
    c0: "?first = Inr cases0" and
    c1: "cases_loop (failed_case pkg) P strip prefix (Failed pkg) cases0 = Inr cases1" and
    c2: "cases_loop (skipped_case pkg) P strip prefix (Skipped pkg) cases1 = Inr cases2" and
    c3: "cases_loop (passed_case pkg) P strip prefix (Passed pkg) cases2 = Inr cases"
    unfolding packageTestCases_def by (auto split: sum.splits)
  have m: "if TestMainFailed pkg
           then \<exists>j. cases0 = [j] \<and>
                  record_of P strip prefix None (Some (failure_with (Output pkg []))) TestMain_case j
           else cases0 = []"
  proof (cases "TestMainFailed pkg")
    case True
    with c0 obtain jtc where j: "newJUnitTestCase P TestMain_case strip prefix = Inr jtc"
      and "cases0 = [jtc\<lparr>Failure := Some (failure_with (Output pkg []))\<rparr>]"
      by (auto simp: failure_with_def split: sum.splits)
    with True newJUnitTestCase_record [OF j] show ?thesis
      by (simp add: record_of_def)
  next
    case False
    with c0 show ?thesis by simp
  qed
  from cases_loop_result [OF c1] obtain fs where
    f: "cases1 = cases0 @ fs"
       "list_all2 (\<lambda>tc j. \<exists>jtc. newJUnitTestCase P tc strip prefix = Inr jtc \<and> j = failed_case pkg tc jtc) (Failed pkg) fs"
    by blast
  from cases_loop_result [OF c2] obtain ss where
    s: "cases2 = cases1 @ ss"
       "list_all2 (\<lambda>tc j. \<exists>jtc. newJUnitTestCase P tc strip prefix = Inr jtc \<and> j = skipped_case pkg tc jtc) (Skipped pkg) ss"
    by blast
  from cases_loop_result [OF c3] obtain ps where
    p: "cases = cases2 @ ps"
       "list_all2 (\<lambda>tc j. \<exists>jtc. newJUnitTestCase P tc strip prefix = Inr jtc \<and> j = passed_case pkg tc jtc) (Passed pkg) ps"
    by blast
  have f': "list_all2 (\<lambda>tc. record_of P strip prefix None
                              (Some (failure_with (Output pkg (tc_Test tc)))) tc) (Failed pkg) fs"
    using f(2) by (rule list_all2_mono) (auto intro: failed_case_record)
  have s': "list_all2 (\<lambda>tc. record_of P strip prefix
                              (Some \<lparr>Skip_Message = Output pkg (tc_Test tc)\<rparr>) None tc) (Skipped pkg) ss"
    using s(2) by (rule list_all2_mono) (auto intro: skipped_case_record)
  have p': "list_all2 (record_of P strip prefix None None) (Passed pkg) ps"
    using p(2) by (rule list_all2_mono) (auto intro: passed_case_record)
  from f(1) s(1) p(1) have "cases = cases0 @ fs @ ss @ ps" by simp
  with m f' s' p' show ?thesis by blast
qed

lemma packageTestCases_total:
  assumes "0 \<le> strip"
  shows "\<exists>cases. packageTestCases P pkg strip prefix = Inr cases"
proof -
  from newJUnitTestCase_total [OF assms, of P TestMain_case prefix]
  obtain jtc where j: "newJUnitTestCase P TestMain_case strip prefix = Inr jtc" ..
  let ?first = "if TestMainFailed pkg then
              (case newJUnitTestCase P TestMain_case strip prefix of
                 Inl p \<Rightarrow> Inl p
               | Inr jtc \<Rightarrow>
                   Inr ([] @ [jtc\<lparr>Failure := Some \<lparr>Failure_Message = ''Failed'', Failure_Type = [],
                                                     Failure_Contents = Output pkg []\<rparr>\<rparr>]))
            else Inr []"
  from j obtain cases0 where c0: "?first = Inr cases0" by (cases "TestMainFailed pkg") auto
  from cases_loop_total [OF assms] obtain cases1 where
    c1: "cases_loop (failed_case pkg) P strip prefix (Failed pkg) cases0 = Inr cases1" by blast
  from cases_loop_total [OF assms] obtain cases2 where
    c2: "cases_loop (skipped_case pkg) P strip prefix (Skipped pkg) cases1 = Inr cases2" by blast
  from cases_loop_total [OF assms] obtain cases3 where
    c3: "cases_loop (passed_case pkg) P strip prefix (Passed pkg) cases2 = Inr cases3" by blast
  show ?thesis
    unfolding packageTestCases_def using c0 c1 c2 c3 by simp
qed

lemma generate_loop_result:
  "generate_loop P exec strip prefix version names acc = Inr suites \<Longrightarrow>
   \<exists>new. suites = acc @ new \<and> list_all2 (suite_of P exec strip prefix version) names new"
proof (induction names arbitrary: acc)
  case Nil
  then show ?case by simp
next
  case (Cons n names)
  let ?pkg = "PackageOf exec n"
  let ?x = "Getenv P ''GOTESTSUM_SUITE''"
  from Cons.prems obtain name cases where
    nm: "(if ?x \<noteq> [] then Inr ?x else mungePackageName n strip prefix) = Inr name" and
    cs: "packageTestCases P ?pkg strip prefix = Inr cases" and
    r: "generate_loop P exec strip prefix version names
          (acc @ [\<lparr>Tests = Total ?pkg, Failures = int (length (Failed ?pkg)),
                   Suite_Time = formatDurationAsSeconds P (Elapsed ?pkg),
                   Suite_Name = name, Properties = packageProperties version,
                   TestCases = cases\<rparr>]) = Inr suites"
    by (auto simp: Let_def split: sum.splits)
  let ?su = "\<lparr>Tests = Total ?pkg, Failures = int (length (Failed ?pkg)),
              Suite_Time = formatDurationAsSeconds P (Elapsed ?pkg),
              Suite_Name = name, Properties = packageProperties version,
              TestCases = cases\<rparr>"
  have su: "suite_of P exec strip prefix version n ?su"
    using nm cs by (auto simp: suite_of_def split: if_splits)
  from Cons.IH [OF r] obtain new where
    "suites = (acc @ [?su]) @ new" "list_all2 (suite_of P exec strip prefix version) names new"
    by blast
  with su show ?case by (intro exI [of _ "?su # new"]) simp
qed

lemma generate_loop_total:
  assumes "0 \<le> strip"
  shows "\<exists>suites. generate_loop P exec strip prefix version names acc = Inr suites"
proof (induction names arbitrary: acc)
  case Nil
  show ?case by simp
next
  case (Cons n names)
  from mungePackageName_total [OF assms, of n prefix]
  obtain r where r: "mungePackageName n strip prefix = Inr r" ..
  from packageTestCases_total [OF assms, of P "PackageOf exec n" prefix]
  obtain cases where c: "packageTestCases P (PackageOf exec n) strip prefix = Inr cases" ..
  show ?case
    using r c Cons.IH by (simp add: Let_def)
qed

lemma generate_result:
  "generate P exec strip prefix = Inr s \<Longrightarrow>
   list_all2 (suite_of P exec strip prefix (goVersion P)) (Packages exec) (Suites s)"
  by (auto simp: generate_def Let_def split: sum.splits dest: generate_loop_result)

lemma generate_total:
  assumes "0 \<le> strip"
  shows "\<exists>s. generate P exec strip prefix = Inr s"
  using generate_loop_total [OF assms, of P exec prefix "goVersion P" "Packages exec" "[]"]
  by (auto simp: generate_def Let_def)

subsection \<open>Case records and the environment\<close>


lemma list_all2_map_eq:
  "list_all2 (\<lambda>x y. f x = g y) xs ys \<Longrightarrow> map g ys = map f xs"
  by (induction rule: list_all2_induct) auto

lemma packageTestCases_classnames:
  assumes "packageTestCases P pkg strip prefix = Inr cases"
  shows "list_all2 (\<lambda>tc jtc. mungePackageName (tc_Package tc) strip prefix = Inr (Classname jtc))
           (source_cases pkg) cases"
proof -
  let ?R = "\<lambda>tc jtc. mungePackageName (tc_Package tc) strip prefix = Inr (Classname jtc)"
  from packageTestCases_result [OF assms] obtain main failed skipped passed where
    c: "cases = main @ failed @ skipped @ passed" and
    m: "if TestMainFailed pkg
        then \<exists>j. main = [j] \<and>
               record_of P strip prefix None (Some (failure_with (Output pkg []))) TestMain_case j
        else main = []" and
    f: "list_all2 (\<lambda>tc. record_of P strip prefix None
                              (Some (failure_with (Output pkg (tc_Test tc)))) tc) (Failed pkg) failed" and
    s: "list_all2 (\<lambda>tc. record_of P strip prefix
                              (Some \<lparr>Skip_Message = Output pkg (tc_Test tc)\<rparr>) None tc) (Skipped pkg) skipped" and
    p: "list_all2 (record_of P strip prefix None None) (Passed pkg) passed"
    by blast
  have m': "list_all2 ?R (if TestMainFailed pkg then [TestMain_case] else []) main"
    using m by (auto simp: record_of_def split: if_splits)
  have f': "list_all2 ?R (Failed pkg) failed"
    using f by (rule list_all2_mono) (simp add: record_of_def)
  have s': "list_all2 ?R (Skipped pkg) skipped"
    using s by (rule list_all2_mono) (simp add: record_of_def)
  have p': "list_all2 ?R (Passed pkg) passed"
    using p by (rule list_all2_mono) (simp add: record_of_def)
  show ?thesis
    unfolding c source_cases_def
    by (intro list_all2_appendI m' f' s' p')
qed

lemma packageTestCases_length:
  assumes "packageTestCases P pkg strip prefix = Inr cases"
  shows "length cases = (if TestMainFailed pkg then 1 else 0) + length (Failed pkg)
                        + length (Skipped pkg) + length (Passed pkg)"
  using list_all2_lengthD [OF packageTestCases_classnames [OF assms]]
  by (auto simp: source_cases_def)






subsection \<open>Suite attributes\<close>

text \<open>
  Claim C1, as amended. With a strip count that is not negative the generator
  returns a report, and in every report it returns the failure count of each
  suite is the size of the failed-case partition of its package, whether or not the
  driver-failure flag of the package is set: the synthetic driver-failure case is
  emitted as a case record but not counted.
\<close>

theorem generate_failures_count:
  "(0 \<le> strip \<longrightarrow> (\<exists>s. generate P exec strip prefix = Inr s)) \<and>
   (\<forall>s. generate P exec strip prefix = Inr s \<longrightarrow>
        map Failures (Suites s)
        = map (\<lambda>pkgname. int (length (Failed (PackageOf exec pkgname)))) (Packages exec))"
proof (intro conjI allI impI)
  assume "0 \<le> strip"
  then show "\<exists>s. generate P exec strip prefix = Inr s" by (rule generate_total)
next
  fix s assume "generate P exec strip prefix = Inr s"
  from generate_result [OF this]
  have "list_all2 (\<lambda>n su. int (length (Failed (PackageOf exec n))) = Failures su)
          (Packages exec) (Suites s)"
    by (rule list_all2_mono) (simp add: suite_of_def)
  then show "map Failures (Suites s)
             = map (\<lambda>pkgname. int (length (Failed (PackageOf exec pkgname)))) (Packages exec)"
    by (rule list_all2_map_eq)
qed

theorem generate_failures_count_witness:
  "generate test_platform sample_exec 0 [] = Inr sample_report \<and>
   map Failures (Suites sample_report) = [0, 1] \<and>
   map (\<lambda>pkgname. int (length (Failed (PackageOf sample_exec pkgname)))) (Packages sample_exec)
   = [0, 1]"
proof -
  have g: "generate test_platform sample_exec 0 [] = Inr sample_report" by code_simp
  have f: "map Failures (Suites sample_report) = [0, 1]" by code_simp
  from generate_failures_count [of 0 test_platform sample_exec "[]"] g
  have "map Failures (Suites sample_report)
        = map (\<lambda>pkgname. int (length (Failed (PackageOf sample_exec pkgname)))) (Packages sample_exec)"
    by blast
  with g f show ?thesis by simp
qed

text \<open>
  The claim as stated adds one to the failure count of a package whose driver
  failed. In the sample run the suite of \<open>example.com/badmain\<close> has the failure
  count 0, where the claim asks for 1.
\<close>

theorem generate_failures_count_counterexample:
  "generate test_platform sample_exec 0 [] = Inr \<lparr>Suites = [badmain_suite, sample_suite]\<rparr> \<and>
   PackageOf sample_exec ''example.com/badmain'' = badmain_pkg \<and>
   TestMainFailed badmain_pkg \<and>
   int (length (Failed badmain_pkg)) + 1 = 1 \<and>
   Failures badmain_suite = 0 \<and>
   Failures badmain_suite \<noteq> int (length (Failed badmain_pkg)) + 1"
proof -
  have "generate test_platform sample_exec 0 [] = Inr \<lparr>Suites = [badmain_suite, sample_suite]\<rparr>"
    by code_simp
  moreover have "PackageOf sample_exec ''example.com/badmain'' = badmain_pkg"
    by (simp add: sample_exec_def)
  moreover have "TestMainFailed badmain_pkg" "int (length (Failed badmain_pkg)) + 1 = 1"
    by (simp_all add: badmain_pkg_def)
  moreover have "Failures badmain_suite = 0" by (simp add: badmain_suite_def)
  ultimately show ?thesis by simp
qed

text \<open>
  Claim C2, as amended. With a strip count that is not negative the generator
  returns a report, and in every report it returns the tests attribute of each
  suite is the total count of its package, copied from the aggregate, while the
  number of case records of the suite is the combined size of the three partitions,
  plus one when the driver-failure flag is set.
\<close>

theorem generate_tests_attribute:
  "(0 \<le> strip \<longrightarrow> (\<exists>s. generate P exec strip prefix = Inr s)) \<and>
   (\<forall>s. generate P exec strip prefix = Inr s \<longrightarrow>
        list_all2
          (\<lambda>pkgname suite.
             Tests suite = Total (PackageOf exec pkgname) \<and>
             length (TestCases suite)
             = (if TestMainFailed (PackageOf exec pkgname) then 1 else 0)
               + length (Failed (PackageOf exec pkgname))
               + length (Skipped (PackageOf exec pkgname))
               + length (Passed (PackageOf exec pkgname)))
          (Packages exec) (Suites s))"
proof (intro conjI allI impI)
  assume "0 \<le> strip"
  then show "\<exists>s. generate P exec strip prefix = Inr s" by (rule generate_total)
next
  fix s assume "generate P exec strip prefix = Inr s"
  from generate_result [OF this]
  show "list_all2
          (\<lambda>pkgname suite.
             Tests suite = Total (PackageOf exec pkgname) \<and>
             length (TestCases suite)
             = (if TestMainFailed (PackageOf exec pkgname) then 1 else 0)
               + length (Failed (PackageOf exec pkgname))
               + length (Skipped (PackageOf exec pkgname))
               + length (Passed (PackageOf exec pkgname)))
          (Packages exec) (Suites s)"
  proof (rule list_all2_mono)
    fix n su assume "suite_of P exec strip prefix (goVersion P) n su"
    then have "Tests su = Total (PackageOf exec n)"
      and "packageTestCases P (PackageOf exec n) strip prefix = Inr (TestCases su)"
      by (simp_all add: suite_of_def)
    with packageTestCases_length [of P "PackageOf exec n" strip prefix "TestCases su"]
    show "Tests su = Total (PackageOf exec n) \<and>
          length (TestCases su)
          = (if TestMainFailed (PackageOf exec n) then 1 else 0)
            + length (Failed (PackageOf exec n))
            + length (Skipped (PackageOf exec n))
            + length (Passed (PackageOf exec n))"
      by simp
  qed
qed

theorem generate_tests_attribute_witness:
  "generate test_platform sample_exec 0 [] = Inr sample_report \<and>
   map Tests (Suites sample_report) = [0, 4] \<and>
   map (\<lambda>suite. length (TestCases suite)) (Suites sample_report) = [1, 4]"
proof -
  have g: "generate test_platform sample_exec 0 [] = Inr sample_report" by code_simp
  have p: "Packages sample_exec = [''example.com/badmain'', ''example.com/sample'']"
    "Suites sample_report = [badmain_suite, sample_suite]"
    "PackageOf sample_exec ''example.com/badmain'' = badmain_pkg"
    "PackageOf sample_exec ''example.com/sample'' = sample_pkg"
    by (simp_all add: sample_exec_def sample_report_def)
  from generate_tests_attribute [of 0 test_platform sample_exec "[]"] g
  have "list_all2
          (\<lambda>pkgname suite.
             Tests suite = Total (PackageOf sample_exec pkgname) \<and>
             length (TestCases suite)
             = (if TestMainFailed (PackageOf sample_exec pkgname) then 1 else 0)
               + length (Failed (PackageOf sample_exec pkgname))
               + length (Skipped (PackageOf sample_exec pkgname))
               + length (Passed (PackageOf sample_exec pkgname)))
          (Packages sample_exec) (Suites sample_report)"
    by blast
  then have "map Tests (Suites sample_report) = [0, 4]"
    and "map (\<lambda>suite. length (TestCases suite)) (Suites sample_report) = [1, 4]"
    by (simp_all add: p badmain_pkg_def sample_pkg_def)
  with g show ?thesis by simp
qed

text \<open>
  The claim as stated equates the tests attribute with the number of case records.
  In the sample run the suite of \<open>example.com/badmain\<close> has the tests attribute 0
  and one case record, the synthetic one.
\<close>

theorem generate_tests_attribute_counterexample:
  "generate test_platform sample_exec 0 [] = Inr \<lparr>Suites = [badmain_suite, sample_suite]\<rparr> \<and>
   Tests badmain_suite = 0 \<and>
   length (TestCases badmain_suite) = 1 \<and>
   Tests badmain_suite \<noteq> int (length (TestCases badmain_suite))"
proof -
  have "generate test_platform sample_exec 0 [] = Inr \<lparr>Suites = [badmain_suite, sample_suite]\<rparr>"
    by code_simp
  moreover have "Tests badmain_suite = 0" "length (TestCases badmain_suite) = 1"
    by (simp_all add: badmain_suite_def)
  ultimately show ?thesis by simp
qed

text \<open>
  Claim C6. With a strip count that is not negative the generator returns a
  report, and in every report it returns: when the variable \<open>GOTESTSUM_SUITE\<close> is
  set to a non-empty value, the name of every suite is that value, whatever the
  strip count and the prefix; when it is unset or empty, the name of every suite is
  the result of the normalizer on the name of its package.
\<close>

theorem generate_suite_name:
  "(0 \<le> strip \<longrightarrow> (\<exists>s. generate P exec strip prefix = Inr s)) \<and>
   (\<forall>s. generate P exec strip prefix = Inr s \<longrightarrow>
        list_all2
          (\<lambda>pkgname suite.
             (\<forall>x. Environ P ''GOTESTSUM_SUITE'' = Some x \<and> x \<noteq> [] \<longrightarrow> Suite_Name suite = x) \<and>
             (Environ P ''GOTESTSUM_SUITE'' = None \<or> Environ P ''GOTESTSUM_SUITE'' = Some [] \<longrightarrow>
                mungePackageName pkgname strip prefix = Inr (Suite_Name suite)))
          (Packages exec) (Suites s))"
proof (intro conjI allI impI)
  assume "0 \<le> strip"
  then show "\<exists>s. generate P exec strip prefix = Inr s" by (rule generate_total)
next
  fix s assume "generate P exec strip prefix = Inr s"
  from generate_result [OF this]
  show "list_all2
          (\<lambda>pkgname suite.
             (\<forall>x. Environ P ''GOTESTSUM_SUITE'' = Some x \<and> x \<noteq> [] \<longrightarrow> Suite_Name suite = x) \<and>
             (Environ P ''GOTESTSUM_SUITE'' = None \<or> Environ P ''GOTESTSUM_SUITE'' = Some [] \<longrightarrow>
                mungePackageName pkgname strip prefix = Inr (Suite_Name suite)))
          (Packages exec) (Suites s)"
    by (rule list_all2_mono) (auto simp: suite_of_def Getenv_def split: if_splits)
qed

theorem generate_suite_name_witness:
  "(\<exists>s. generate override_platform sample_exec 2 ''ci'' = Inr s \<and>
        map Suite_Name (Suites s) = [''nightly'', ''nightly'']) \<and>
   (\<exists>s. generate test_platform sample_exec 0 [] = Inr s \<and>
        map Suite_Name (Suites s) = [''example-com.badmain'', ''example-com.sample''])"
proof -
  have e: "Environ override_platform ''GOTESTSUM_SUITE'' = Some ''nightly''"
    "Environ test_platform ''GOTESTSUM_SUITE'' = None"
    by (simp_all add: override_platform_def test_platform_def)
  have p: "Packages sample_exec = [''example.com/badmain'', ''example.com/sample'']"
    by (simp add: sample_exec_def)
  have m: "mungePackageName ''example.com/badmain'' 0 [] = Inr ''example-com.badmain''"
    "mungePackageName ''example.com/sample'' 0 [] = Inr ''example-com.sample''"
    by code_simp+
  from generate_suite_name [of 2 override_platform sample_exec "''ci''"]
  obtain s where s: "generate override_platform sample_exec 2 ''ci'' = Inr s"
    and "list_all2 (\<lambda>pkgname suite. Suite_Name suite = ''nightly'') (Packages sample_exec) (Suites s)"
    using e(1) by (auto elim!: list_all2_mono)
  then have 1: "map Suite_Name (Suites s) = [''nightly'', ''nightly'']"
    by (auto simp: p list_all2_Cons1)
  from generate_suite_name [of 0 test_platform sample_exec "[]"]
  obtain t where t: "generate test_platform sample_exec 0 [] = Inr t"
    and "list_all2 (\<lambda>pkgname suite. mungePackageName pkgname 0 [] = Inr (Suite_Name suite))
           (Packages sample_exec) (Suites t)"
    using e(2) by (auto elim!: list_all2_mono)
  then have 2: "map Suite_Name (Suites t) = [''example-com.badmain'', ''example-com.sample'']"
    by (auto simp: p m list_all2_Cons1)
  have "\<exists>s. generate override_platform sample_exec 2 ''ci'' = Inr s \<and>
            map Suite_Name (Suites s) = [''nightly'', ''nightly'']"
    by (rule exI [of _ s]) (simp add: s 1)
  moreover have "\<exists>s. generate test_platform sample_exec 0 [] = Inr s \<and>
            map Suite_Name (Suites s) = [''example-com.badmain'', ''example-com.sample'']"
    by (rule exI [of _ t]) (simp add: t 2)
  ultimately show ?thesis by (rule conjI)
qed

subsection \<open>The order of the case records\<close>

text \<open>
  Claim C8. With a strip count that is not negative \<open>packageTestCases\<close> returns a
  list of case records, and every list it returns is made of four groups in this
  order: the synthetic driver-failure case, named \<open>TestMain\<close> and carrying the
  output of the whole package, when the driver-failure flag is set and nothing
  otherwise; then the records of the failed cases, then those of the skipped
  cases, then those of the passed cases, each group in the order of its partition.
  The case records of every suite of a report are the list \<open>packageTestCases\<close>
  returns for its package.
\<close>

theorem packageTestCases_order:
  "(0 \<le> strip \<longrightarrow> (\<exists>cases. packageTestCases P pkg strip prefix = Inr cases)) \<and>
   (\<forall>cases. packageTestCases P pkg strip prefix = Inr cases \<longrightarrow>
      (\<exists>main failed skipped passed.
         cases = main @ failed @ skipped @ passed \<and>
         (if TestMainFailed pkg
          then \<exists>j. main = [j] \<and>
                 record_of P strip prefix None (Some (failure_with (Output pkg []))) TestMain_case j
          else main = []) \<and>
         list_all2 (\<lambda>tc. record_of P strip prefix None
                            (Some (failure_with (Output pkg (tc_Test tc)))) tc) (Failed pkg) failed \<and>
         list_all2 (\<lambda>tc. record_of P strip prefix
                            (Some \<lparr>Skip_Message = Output pkg (tc_Test tc)\<rparr>) None tc) (Skipped pkg) skipped \<and>
         list_all2 (record_of P strip prefix None None) (Passed pkg) passed)) \<and>
   (\<forall>s. generate P exec strip prefix = Inr s \<longrightarrow>
      list_all2 (\<lambda>pkgname suite.
                   packageTestCases P (PackageOf exec pkgname) strip prefix = Inr (TestCases suite))
        (Packages exec) (Suites s))"
proof (intro conjI allI impI)
  assume "0 \<le> strip"
  then show "\<exists>cases. packageTestCases P pkg strip prefix = Inr cases"
    by (rule packageTestCases_total)
next
  fix cases assume "packageTestCases P pkg strip prefix = Inr cases"
  then show "\<exists>main failed skipped passed.
         cases = main @ failed @ skipped @ passed \<and>
         (if TestMainFailed pkg
          then \<exists>j. main = [j] \<and>
                 record_of P strip prefix None (Some (failure_with (Output pkg []))) TestMain_case j
          else main = []) \<and>
         list_all2 (\<lambda>tc. record_of P strip prefix None
                            (Some (failure_with (Output pkg (tc_Test tc)))) tc) (Failed pkg) failed \<and>
         list_all2 (\<lambda>tc. record_of P strip prefix
                            (Some \<lparr>Skip_Message = Output pkg (tc_Test tc)\<rparr>) None tc) (Skipped pkg) skipped \<and>
         list_all2 (record_of P strip prefix None None) (Passed pkg) passed"
    by (rule packageTestCases_result)
next
  fix s assume "generate P exec strip prefix = Inr s"
  from generate_result [OF this]
  show "list_all2 (\<lambda>pkgname suite.
                   packageTestCases P (PackageOf exec pkgname) strip prefix = Inr (TestCases suite))
        (Packages exec) (Suites s)"
    by (rule list_all2_mono) (simp add: suite_of_def)
qed

theorem packageTestCases_order_witness:
  "packageTestCases test_platform sample_pkg 0 [] = Inr (TestCases sample_suite) \<and>
   map Case_Name (TestCases sample_suite)
   = [''TestFails'', ''TestSkipped'', ''TestPasses'', ''TestAlsoPasses''] \<and>
   packageTestCases test_platform badmain_pkg 0 [] = Inr (TestCases badmain_suite) \<and>
   map Case_Name (TestCases badmain_suite) = [''TestMain'']"
proof -
  have e: "packageTestCases test_platform sample_pkg 0 [] = Inr (TestCases sample_suite)"
    by code_simp
  have b: "packageTestCases test_platform badmain_pkg 0 [] = Inr (TestCases badmain_suite)"
    by code_simp
  from packageTestCases_order
         [of 0 test_platform sample_pkg "[]", THEN conjunct2, THEN conjunct1, rule_format, OF e]
  obtain main failed skipped passed where
    c: "TestCases sample_suite = main @ failed @ skipped @ passed" and
    m: "if TestMainFailed sample_pkg
        then \<exists>j. main = [j] \<and>
               record_of test_platform 0 [] None (Some (failure_with (Output sample_pkg []))) TestMain_case j
        else main = []" and
    f: "list_all2 (\<lambda>tc. record_of test_platform 0 [] None
                            (Some (failure_with (Output sample_pkg (tc_Test tc)))) tc) (Failed sample_pkg) failed" and
    s: "list_all2 (\<lambda>tc. record_of test_platform 0 []
                            (Some \<lparr>Skip_Message = Output sample_pkg (tc_Test tc)\<rparr>) None tc) (Skipped sample_pkg) skipped" and
    p: "list_all2 (record_of test_platform 0 [] None None) (Passed sample_pkg) passed"
    by blast
  have "main = []" using m by (simp add: sample_pkg_def)
  moreover have "map Case_Name failed = [''TestFails'']"
    using f by (auto simp: sample_pkg_def sample_case_def record_of_def list_all2_Cons1)
  moreover have "map Case_Name skipped = [''TestSkipped'']"
    using s by (auto simp: sample_pkg_def sample_case_def record_of_def list_all2_Cons1)
  moreover have "map Case_Name passed = [''TestPasses'', ''TestAlsoPasses'']"
    using p by (auto simp: sample_pkg_def sample_case_def record_of_def list_all2_Cons1)
  ultimately have n: "map Case_Name (TestCases sample_suite)
        = [''TestFails'', ''TestSkipped'', ''TestPasses'', ''TestAlsoPasses'']"
    by (simp add: c)
  from packageTestCases_order
         [of 0 test_platform badmain_pkg "[]", THEN conjunct2, THEN conjunct1, rule_format, OF b]
  obtain main' failed' skipped' passed' where
    c': "TestCases badmain_suite = main' @ failed' @ skipped' @ passed'" and
    m': "if TestMainFailed badmain_pkg
        then \<exists>j. main' = [j] \<and>
               record_of test_platform 0 [] None (Some (failure_with (Output badmain_pkg []))) TestMain_case j
        else main' = []" and
    f': "list_all2 (\<lambda>tc. record_of test_platform 0 [] None
                            (Some (failure_with (Output badmain_pkg (tc_Test tc)))) tc) (Failed badmain_pkg) failed'" and
    s': "list_all2 (\<lambda>tc. record_of test_platform 0 []
                            (Some \<lparr>Skip_Message = Output badmain_pkg (tc_Test tc)\<rparr>) None tc) (Skipped badmain_pkg) skipped'" and
    p': "list_all2 (record_of test_platform 0 [] None None) (Passed badmain_pkg) passed'"
    by blast
  have "map Case_Name main' = [''TestMain'']"
    using m' by (auto simp: badmain_pkg_def record_of_def TestMain_case_def)
  moreover have "failed' = []" "skipped' = []" "passed' = []"
    using f' s' p' by (simp_all add: badmain_pkg_def)
  ultimately have n': "map Case_Name (TestCases badmain_suite) = [''TestMain'']"
    by (simp add: c')
  from e n b n' show ?thesis by simp
qed

subsection \<open>The suite-name override leaves everything else alone\<close>



section \<open>The toolchain version resolver\<close>

text \<open>
  Claim C7. When the variable \<open>GOVERSION\<close> is set, to any value, the resolver returns
  that value unchanged. When it is unset and running \<open>go version\<close> fails, with
  whatever error, the resolver returns the text \<open>unknown\<close>; its result is a plain
  string, so no error leaves it.
\<close>

theorem goVersion_override_or_unknown:
  "(Environ P ''GOVERSION'' = Some v \<longrightarrow> goVersion P = v) \<and>
   (Environ P ''GOVERSION'' = None \<and> GoVersionOutput P = Inl err \<longrightarrow> goVersion P = ''unknown'')"
  by (simp add: goVersion_def LookupEnv_def)

theorem goVersion_override_or_unknown_witness:
  "goVersion test_platform = ''go7.7.7'' \<and>
   goVersion (test_platform\<lparr>Environ := Map.empty\<rparr>) = ''unknown'' \<and>
   goVersion (test_platform\<lparr>Environ := [''GOVERSION'' \<mapsto> []]\<rparr>) = []"
  using goVersion_override_or_unknown [of test_platform "''go7.7.7''"]
        goVersion_override_or_unknown
          [of "test_platform\<lparr>Environ := Map.empty\<rparr>" undefined
              "Error ''exec: go: executable file not found in $PATH''"]
        goVersion_override_or_unknown [of "test_platform\<lparr>Environ := [''GOVERSION'' \<mapsto> []]\<rparr>" "[]"]
  by (simp add: test_platform_def)

section \<open>The writer\<close>

text \<open>
  Claim C10. When marshalling the report tree fails, the writer returns the error
  and the output sink is as it was before the call: nothing has been written, not
  even the XML declaration. \<open>Write\<close> returns the same sink with the error wrapped.
\<close>

theorem write_xml_marshal_failure:
  assumes "MarshalIndent P suites = Inl err"
  shows "write_xml P out_Write out suites = (out, Some err) \<and>
         (generate P exec strip prefix = Inr suites \<longrightarrow>
            Write P out_Write out exec strip prefix
            = Inr (out, Some (WithMessage err ''failed to write JUnit XML'')))"
  using assms by (simp add: write_xml_def Write_def Wrap_def)

theorem write_xml_marshal_failure_witness:
  "write_xml test_platform log_Write [] sample_report = ([], Some (Error ''xml: unsupported type'')) \<and>
   Write test_platform log_Write [] sample_exec 0 []
   = Inr ([], Some (WithMessage (Error ''xml: unsupported type'') ''failed to write JUnit XML'')) \<and>
   write_xml (test_platform\<lparr>MarshalIndent := \<lambda>suites. Inr ''<testsuites></testsuites>''\<rparr>)
     log_Write [] sample_report
   = ([xml_Header, ''<testsuites></testsuites>''], None)"
proof -
  have m: "MarshalIndent test_platform sample_report = Inl (Error ''xml: unsupported type'')"
    by (simp add: test_platform_def)
  have g: "generate test_platform sample_exec 0 [] = Inr sample_report" by code_simp
  have s: "write_xml (test_platform\<lparr>MarshalIndent := \<lambda>suites. Inr ''<testsuites></testsuites>''\<rparr>)
             log_Write [] sample_report
           = ([xml_Header, ''<testsuites></testsuites>''], None)"
    by (simp add: write_xml_def log_Write_def)
  from write_xml_marshal_failure [OF m, of log_Write "[]" sample_exec 0 "[]"] g s
  show ?thesis by simp
qed

end
